theory Spec2Isabelle
  imports Main
begin

section \<open>Data model of the flow-file repository\<close>

text \<open>
  The development embeds \<^verbatim>\<open>extensions/rocksdb-repos/FlowFileRepository.cpp\<close>:
  \<^verbatim>\<open>flush\<close>, \<^verbatim>\<open>prune_stored_flowfiles\<close>, \<^verbatim>\<open>ExecuteWithRetry\<close>,
  \<^verbatim>\<open>need_checkpoint\<close> and \<^verbatim>\<open>initialize_repository\<close>.

  Keys and serialized values are byte strings, which may hold any byte.
\<close>

type_synonym key = string
type_synonym bytes = string

text \<open>A resource claim is identified by the content path it names.\<close>

type_synonym claim = string

text \<open>
  The fields of \<^verbatim>\<open>FlowFileRecord\<close> that the repository reads or writes:
  \<^verbatim>\<open>getUUIDStr\<close>, \<^verbatim>\<open>getConnectionUuid\<close>, \<^verbatim>\<open>getContentFullPath\<close>,
  \<^verbatim>\<open>getResourceClaim\<close> (a null pointer is \<open>None\<close>) and the flag written by
  \<^verbatim>\<open>setStoredToRepository\<close>.
\<close>

record FlowFileRecord =
  uuid_str :: string
  connection_uuid :: string
  content_full_path :: string
  resource_claim :: "claim option"
  stored_to_repository :: bool

text \<open>
  What ends a run without a result: the null \<^verbatim>\<open>content_repo_\<close> dereferenced, and memory
  read after it was freed (the behaviour of the source is then undefined).
\<close>

datatype error = NullPointer | UseAfterFree

text \<open>\<^verbatim>\<open>rocksdb::Status\<close>: only \<^verbatim>\<open>ok()\<close> is ever inspected.\<close>

datatype Status = Ok | NotFound | IOError

fun ok :: "Status \<Rightarrow> bool" where
  "ok Ok = True"
| "ok NotFound = False"
| "ok IOError = False"

text \<open>
  The store is an ordered sequence of key/value pairs, the order being the one a forward
  iterator walks.
\<close>

type_synonym store = "(key \<times> bytes) list"

text \<open>The calls the content repository receives, in order.\<close>

datatype content_call = RemoveIfOrphaned claim | Remove claim

text \<open>The calls made on the checkpoint directory and the checkpoint factory.\<close>

datatype fs_call = DeleteDirCall int | CheckpointCreateCall bool | CreateCheckpointCall bool

text \<open>
  What lies outside the file: the record format (\<^verbatim>\<open>FlowFileRecord::DeSerialize\<close>),
  the faults of the storage engine and of the file system, and the constant
  \<^verbatim>\<open>FLOWFILE_REPOSITORY_RETRY_INTERVAL_INCREMENTS\<close> of the header. They are parameters.
\<close>

record env =
  DeSerialize :: "bytes \<Rightarrow> FlowFileRecord option"
  read_error :: "key \<Rightarrow> bool"
  write_fails :: "nat \<Rightarrow> bool"
  RETRY_INTERVAL_INCREMENTS :: int
  delete_dir_rc :: int
  checkpoint_create_ok :: bool
  create_checkpoint_ok :: bool
  open_readonly_ok :: bool

text \<open>
  The state of the repository and of its collaborators. \<open>content_repo\<close> is the pointer
  \<^verbatim>\<open>content_repo_\<close>: \<open>None\<close> when null, otherwise the calls the content repository has
  received. \<open>connectionMap\<close> gives, for the UUID of a registered connection, the records
  that were \<^verbatim>\<open>put\<close> into it. \<open>checkpoint\<close> says whether \<^verbatim>\<open>checkpoint_\<close> is non-null;
  \<open>checkpoint_dir\<close> is the content of the checkpoint directory, when it exists.
\<close>

record repo =
  keys_to_delete :: "key list"
  db :: store
  write_calls :: nat
  content_repo :: "content_call list option"
  connectionMap :: "string \<Rightarrow> FlowFileRecord list option"
  checkpoint :: bool
  checkpoint_dir :: "store option"
  fs_calls :: "fs_call list"

section \<open>Retry with backoff\<close>

text \<open>
  What \<^verbatim>\<open>ExecuteWithRetry\<close> does, in order: it calls the operation, which answers a
  status; it logs; it sleeps. \<^verbatim>\<open>waitTime\<close> is an \<^verbatim>\<open>int\<close> that receives at most three
  increments of the header's constant; it is modelled as an integer, with no overflow.
\<close>

datatype retry_event = Operation Status | LogTrace | LogError | SleepFor int

function retry_loop ::
  "int \<Rightarrow> ('s \<Rightarrow> Status \<times> 's) \<Rightarrow> nat \<Rightarrow> int \<Rightarrow> 's \<Rightarrow> retry_event list
     \<Rightarrow> bool \<times> 's \<times> retry_event list" where
  "retry_loop incr operation i waitTime s tr =
     (if i < 3 then
        (case operation s of
           (status, s') \<Rightarrow>
             if ok status then (True, s', tr @ [Operation status, LogTrace])
             else
               (let waitTime' = waitTime + incr
                in retry_loop incr operation (i + 1) waitTime' s'
                     (tr @ [Operation status, LogError, SleepFor waitTime'])))
      else (False, s, tr))"
  by pat_completeness auto
termination
  by (relation "measure (\<lambda>(incr, operation, i, waitTime, s, tr). 3 - i)") auto

declare retry_loop.simps [simp del]

definition ExecuteWithRetry ::
  "int \<Rightarrow> ('s \<Rightarrow> Status \<times> 's) \<Rightarrow> 's \<Rightarrow> bool \<times> 's \<times> retry_event list" where
  "ExecuteWithRetry incr operation s = retry_loop incr operation 0 0 s []"

text \<open>The number of times the operation ran, and the sleeps.\<close>

definition attempts :: "retry_event list \<Rightarrow> nat" where
  "attempts tr = length (filter (\<lambda>ev. case ev of Operation st \<Rightarrow> True | _ \<Rightarrow> False) tr)"

definition sleeps :: "retry_event list \<Rightarrow> int list" where
  "sleeps tr = concat (map (\<lambda>ev. case ev of SleepFor w \<Rightarrow> [w] | _ \<Rightarrow> []) tr)"

text \<open>
  The state after the first \<open>n\<close> runs of an operation, and the status of run \<open>n + 1\<close>.
\<close>

fun state_after :: "('s \<Rightarrow> Status \<times> 's) \<Rightarrow> nat \<Rightarrow> 's \<Rightarrow> 's" where
  "state_after operation 0 s = s"
| "state_after operation (Suc n) s = snd (operation (state_after operation n s))"

definition status_at :: "('s \<Rightarrow> Status \<times> 's) \<Rightarrow> nat \<Rightarrow> 's \<Rightarrow> Status" where
  "status_at operation n s = fst (operation (state_after operation n s))"

text \<open>
  The events of run \<open>j + 1\<close> with linear backoff: the call and its status, then the log
  line, then, after a failure, a sleep of \<open>j + 1\<close> increments.
\<close>

definition attempt_trace :: "int \<Rightarrow> nat \<Rightarrow> Status \<Rightarrow> retry_event list" where
  "attempt_trace incr j st =
     Operation st # (if ok st then [LogTrace] else [LogError, SleepFor (int (j + 1) * incr)])"

section \<open>The storage engine\<close>

text \<open>
  \<^verbatim>\<open>DB::MultiGet\<close> answers every key with a status and a value: an injected read error,
  \<^verbatim>\<open>NotFound\<close> for a key the store does not hold, or the stored bytes. Within one call
  the answer depends on the key only, so a key that is asked twice gets the same answer.
\<close>

definition Get :: "env \<Rightarrow> store \<Rightarrow> key \<Rightarrow> Status \<times> bytes" where
  "Get e d k =
     (if read_error e k then (IOError, [])
      else (case map_of d k of None \<Rightarrow> (NotFound, []) | Some v \<Rightarrow> (Ok, v)))"

definition MultiGet :: "env \<Rightarrow> store \<Rightarrow> key list \<Rightarrow> Status list \<times> bytes list" where
  "MultiGet e d keys = (map (\<lambda>k. fst (Get e d k)) keys, map (\<lambda>k. snd (Get e d k)) keys)"

text \<open>
  \<^verbatim>\<open>DB::Write\<close> of a batch of deletes is atomic: it removes every key of the batch, or it
  fails and leaves the store as it was.
\<close>

definition Write :: "env \<Rightarrow> key list \<Rightarrow> repo \<Rightarrow> Status \<times> repo" where
  "Write e batch s =
     (if write_fails e (write_calls s)
      then (IOError, s\<lparr>write_calls := Suc (write_calls s)\<rparr>)
      else (Ok, s\<lparr>db := filter (\<lambda>(k, v). k \<notin> set batch) (db s),
                   write_calls := Suc (write_calls s)\<rparr>))"

section \<open>flush\<close>

text \<open>The loop that empties the queue of keys into \<^verbatim>\<open>keystrings\<close>.\<close>

fun drain :: "key list \<Rightarrow> key list \<Rightarrow> key list \<times> key list" where
  "drain [] keystrings = ([], keystrings)"
| "drain (key # queue) keystrings = drain queue (keystrings @ [key])"

text \<open>
  \<^verbatim>\<open>keystrings\<close> is a \<^verbatim>\<open>std::list\<close> of strings and \<^verbatim>\<open>keys[i]\<close> a \<^verbatim>\<open>rocksdb::Slice\<close>
  that points into the string of node \<open>i\<close> of the list. The nodes are kept in place:
  \<open>Some key\<close> for a node that is in the list, \<open>None\<close> for a node that was erased and
  freed. Reading a slice whose node was freed has no defined result.
\<close>

definition deref :: "key option list \<Rightarrow> nat \<Rightarrow> error + key" where
  "deref keystrings i =
     (if i < length keystrings then
        (case keystrings ! i of Some key \<Rightarrow> Inr key | None \<Rightarrow> Inl UseAfterFree)
      else Inl UseAfterFree)"

text \<open>
  \<^verbatim>\<open>keys[i].data()\<close> is a \<^verbatim>\<open>const char *\<close>: as a \<^verbatim>\<open>%s\<close> argument and as the argument
  of \<^verbatim>\<open>std::list<std::string>::remove\<close> it is read as a C string, up to the first NUL.
\<close>

definition c_str :: "string \<Rightarrow> string" where
  "c_str k = takeWhile (\<lambda>c. c \<noteq> CHR 0x00) k"

text \<open>\<^verbatim>\<open>std::list::remove\<close> erases every node whose string equals its argument.\<close>

definition erase :: "string \<Rightarrow> key option list \<Rightarrow> key option list" where
  "erase str keystrings = map (\<lambda>node. if node = Some str then None else node) keystrings"

text \<open>The strings of the list, in order.\<close>

definition live :: "key option list \<Rightarrow> key list" where
  "live keystrings = concat (map (\<lambda>node. case node of Some key \<Rightarrow> [key] | None \<Rightarrow> []) keystrings)"

text \<open>
  The loop over the answers of \<^verbatim>\<open>MultiGet\<close>. A read that failed logs the key and removes
  it from \<^verbatim>\<open>keystrings\<close>, both through \<^verbatim>\<open>keys[i].data()\<close>; a read that succeeded
  ends with \<^verbatim>\<open>batch.Delete(keys[i])\<close>, which copies the bytes of the slice.
\<close>

function flush_loop ::
  "env \<Rightarrow> key list \<Rightarrow> bytes list \<Rightarrow> Status list \<Rightarrow> nat
     \<Rightarrow> key option list \<times> FlowFileRecord list \<times> key list
     \<Rightarrow> error + key option list \<times> FlowFileRecord list \<times> key list" where
  "flush_loop e keys vals multistatus i (keystrings, purgeList, batch) =
     (if i < length keys \<and> i < length vals \<and> i < length multistatus then
        (if \<not> ok (multistatus ! i) then
           (case deref keystrings i of
              Inl err \<Rightarrow> Inl err
            | Inr key \<Rightarrow>
                flush_loop e keys vals multistatus (i + 1)
                  (erase (c_str key) keystrings, purgeList, batch))
         else
           (case DeSerialize e (vals ! i) of
              Some eventRead \<Rightarrow>
                (case deref keystrings i of
                   Inl err \<Rightarrow> Inl err
                 | Inr key \<Rightarrow>
                     flush_loop e keys vals multistatus (i + 1)
                       (keystrings, purgeList @ [eventRead], batch @ [key]))
            | None \<Rightarrow>
                (case deref keystrings i of
                   Inl err \<Rightarrow> Inl err
                 | Inr key \<Rightarrow>
                     flush_loop e keys vals multistatus (i + 1)
                       (keystrings, purgeList, batch @ [key]))))
      else Inr (keystrings, purgeList, batch))"
  by pat_completeness auto
termination
  by (relation "measure (\<lambda>(e, keys, vals, multistatus, i, acc). length keys - i)") auto

declare flush_loop.simps [simp del]

text \<open>The loop that releases the claims of the purge list.\<close>

fun purge :: "content_call list \<Rightarrow> FlowFileRecord list \<Rightarrow> content_call list" where
  "purge calls [] = calls"
| "purge calls (ffr # purgeList) =
     (case resource_claim ffr of
        Some c \<Rightarrow> purge (calls @ [RemoveIfOrphaned c]) purgeList
      | None \<Rightarrow> purge calls purgeList)"

text \<open>
  \<^verbatim>\<open>flush\<close> in three parts: the reads that build \<^verbatim>\<open>keystrings\<close>, \<^verbatim>\<open>purgeList\<close> and
  the write batch; the write under \<^verbatim>\<open>ExecuteWithRetry\<close>; and what follows its result.
  The first part gives the strings left in \<^verbatim>\<open>keystrings\<close>, or no result.
\<close>

definition flush_read ::
  "env \<Rightarrow> repo \<Rightarrow> error + key list \<times> FlowFileRecord list \<times> key list" where
  "flush_read e s =
     (let keys = snd (drain (keys_to_delete s) []);
          (multistatus, vals) = MultiGet e (db s) keys
      in case flush_loop e keys vals multistatus 0 (map Some keys, [], []) of
           Inl err \<Rightarrow> Inl err
         | Inr (keystrings, purgeList, batch) \<Rightarrow> Inr (live keystrings, purgeList, batch))"

definition flush_keystrings :: "env \<Rightarrow> repo \<Rightarrow> key list" where
  "flush_keystrings e s =
     (case flush_read e s of Inr (keystrings, purgeList, batch) \<Rightarrow> keystrings | Inl err \<Rightarrow> [])"

definition flush_purgeList :: "env \<Rightarrow> repo \<Rightarrow> FlowFileRecord list" where
  "flush_purgeList e s =
     (case flush_read e s of Inr (keystrings, purgeList, batch) \<Rightarrow> purgeList | Inl err \<Rightarrow> [])"

definition flush_batch :: "env \<Rightarrow> repo \<Rightarrow> key list" where
  "flush_batch e s =
     (case flush_read e s of Inr (keystrings, purgeList, batch) \<Rightarrow> batch | Inl err \<Rightarrow> [])"

definition flush_write :: "env \<Rightarrow> repo \<Rightarrow> bool \<times> repo \<times> retry_event list" where
  "flush_write e s =
     ExecuteWithRetry (RETRY_INTERVAL_INCREMENTS e) (Write e (flush_batch e s))
       (s\<lparr>keys_to_delete := fst (drain (keys_to_delete s) [])\<rparr>)"

definition flush_committed :: "env \<Rightarrow> repo \<Rightarrow> bool" where
  "flush_committed e s = fst (flush_write e s)"

definition flush :: "env \<Rightarrow> repo \<Rightarrow> error + repo" where
  "flush e s =
     (case flush_read e s of
        Inl err \<Rightarrow> Inl err
      | Inr (keystrings, purgeList, batch) \<Rightarrow>
          (case flush_write e s of
             (committed, s', tr) \<Rightarrow>
               if \<not> committed then
                 Inr (s'\<lparr>keys_to_delete := keys_to_delete s' @ keystrings\<rparr>)
               else
                 (case content_repo s' of
                    Some calls \<Rightarrow> Inr (s'\<lparr>content_repo := Some (purge calls purgeList)\<rparr>)
                  | None \<Rightarrow> Inr s')))"

subsection \<open>When the loop reads no freed string\<close>

text \<open>
  A key is unreadable when the status of its read is not ok. \<open>no_dangling\<close> walks the
  drained keys with the strings erased so far: no key is read after its node was erased,
  and an unreadable key erases the nodes that hold its C string.
\<close>

definition unreadable :: "env \<Rightarrow> store \<Rightarrow> key \<Rightarrow> bool" where
  "unreadable e d k = (\<not> ok (fst (Get e d k)))"

fun no_dangling :: "(key \<Rightarrow> bool) \<Rightarrow> key set \<Rightarrow> key list \<Rightarrow> bool" where
  "no_dangling bad erased [] = True"
| "no_dangling bad erased (k # ks) =
     (k \<notin> erased \<and> no_dangling bad (if bad k then insert (c_str k) erased else erased) ks)"

definition flush_defined :: "env \<Rightarrow> repo \<Rightarrow> bool" where
  "flush_defined e s = no_dangling (unreadable e (db s)) {} (keys_to_delete s)"

text \<open>The strings that the unreadable keys of a queue erase from \<^verbatim>\<open>keystrings\<close>.\<close>

definition erased_strings :: "env \<Rightarrow> store \<Rightarrow> key list \<Rightarrow> key set" where
  "erased_strings e d q = set (map c_str (filter (unreadable e d) q))"

section \<open>The recovery pass\<close>

text \<open>
  Dereferencing the null \<^verbatim>\<open>content_repo_\<close> ends the pass: \<^verbatim>\<open>prune_stored_flowfiles\<close>
  calls \<^verbatim>\<open>content_repo_->remove\<close> with no null check (\<^verbatim>\<open>flush\<close> has one).
\<close>

text \<open>
  Modelled from the spec: \<^verbatim>\<open>rocksdb::DB::OpenForReadOnly\<close> on the checkpoint directory
  (\<^verbatim>\<open>openReadOnly(path) -> handle | failure\<close>). It gives the content of the directory,
  or \<open>None\<close> when the status is not ok: the directory is missing or the open fails.
\<close>

definition OpenForReadOnly :: "env \<Rightarrow> store option \<Rightarrow> store option" where
  "OpenForReadOnly e dir = (if open_readonly_ok e then dir else None)"

text \<open>
  The branch that finds the connection: \<^verbatim>\<open>setStoredToRepository(true)\<close>, then
  \<^verbatim>\<open>search->second->put(eventRead)\<close>.
\<close>

definition deliver :: "FlowFileRecord \<Rightarrow> FlowFileRecord list \<Rightarrow> repo \<Rightarrow> repo" where
  "deliver eventRead queue s =
     s\<lparr>connectionMap := (connectionMap s)
          (connection_uuid eventRead \<mapsto> queue @ [eventRead\<lparr>stored_to_repository := True\<rparr>])\<rparr>"

text \<open>The other branch: the claim is removed from the content repository, the key enqueued.\<close>

definition discard :: "key \<Rightarrow> FlowFileRecord \<Rightarrow> repo \<Rightarrow> error + repo" where
  "discard key eventRead s =
     (if length (content_full_path eventRead) > 0 then
        (case resource_claim eventRead of
           Some c \<Rightarrow>
             (case content_repo s of
                None \<Rightarrow> Inl NullPointer
              | Some calls \<Rightarrow>
                  Inr (s\<lparr>content_repo := Some (calls @ [Remove c]),
                         keys_to_delete := keys_to_delete s @ [key]\<rparr>))
         | None \<Rightarrow> Inr (s\<lparr>keys_to_delete := keys_to_delete s @ [key]\<rparr>))
      else Inr (s\<lparr>keys_to_delete := keys_to_delete s @ [key]\<rparr>))"

text \<open>The body of the loop over the iterator, for one key and value.\<close>

definition prune_record :: "env \<Rightarrow> bool \<Rightarrow> key \<Rightarrow> bytes \<Rightarrow> repo \<Rightarrow> error + repo" where
  "prune_record e corrupt_checkpoint key val s =
     (case DeSerialize e val of
        Some eventRead \<Rightarrow>
          (case connectionMap s (connection_uuid eventRead) of
             Some queue \<Rightarrow>
               if \<not> corrupt_checkpoint then Inr (deliver eventRead queue s)
               else discard key eventRead s
           | None \<Rightarrow> discard key eventRead s)
      | None \<Rightarrow> Inr (s\<lparr>keys_to_delete := keys_to_delete s @ [key]\<rparr>))"

fun prune_loop :: "env \<Rightarrow> bool \<Rightarrow> store \<Rightarrow> repo \<Rightarrow> error + repo" where
  "prune_loop e corrupt_checkpoint [] s = Inr s"
| "prune_loop e corrupt_checkpoint ((key, val) # it) s =
     (case prune_record e corrupt_checkpoint key val s of
        Inl err \<Rightarrow> Inl err
      | Inr s' \<Rightarrow> prune_loop e corrupt_checkpoint it s')"

text \<open>
  \<^verbatim>\<open>corrupt_checkpoint\<close> is initialised to false and never assigned again, also when the
  open fails and the pass iterates the live store.
\<close>

definition stored_database :: "env \<Rightarrow> repo \<Rightarrow> store" where
  "stored_database e s =
     (case OpenForReadOnly e (checkpoint_dir s) of
        Some snapshot \<Rightarrow> snapshot
      | None \<Rightarrow> db s)"

definition prune_stored_flowfiles :: "env \<Rightarrow> repo \<Rightarrow> error + repo" where
  "prune_stored_flowfiles e s =
     (let corrupt_checkpoint = False in
      if checkpoint s then prune_loop e corrupt_checkpoint (stored_database e s) s
      else Inr s)"

subsection \<open>What a pass does, as lists\<close>

text \<open>
  The effects of a pass over the pairs \<open>it\<close>, written as list comprehensions for the
  theorems to compare the loop with: the keys it enqueues, the records it puts into the
  connection \<open>c\<close>, and the calls it makes on the content repository. \<open>reg\<close> says which
  connection UUIDs are in \<^verbatim>\<open>connectionMap\<close>.
\<close>

definition registered :: "repo \<Rightarrow> string \<Rightarrow> bool" where
  "registered s c = (connectionMap s c \<noteq> None)"

definition claim_release :: "FlowFileRecord \<Rightarrow> content_call list" where
  "claim_release r =
     (if content_full_path r \<noteq> [] then
        (case resource_claim r of Some cl \<Rightarrow> [Remove cl] | None \<Rightarrow> [])
      else [])"

definition undeliverable :: "env \<Rightarrow> bool \<Rightarrow> (string \<Rightarrow> bool) \<Rightarrow> bytes \<Rightarrow> bool" where
  "undeliverable e corrupt reg v =
     (case DeSerialize e v of
        None \<Rightarrow> True
      | Some r \<Rightarrow> corrupt \<or> \<not> reg (connection_uuid r))"

definition scheduled :: "env \<Rightarrow> bool \<Rightarrow> (string \<Rightarrow> bool) \<Rightarrow> store \<Rightarrow> key list" where
  "scheduled e corrupt reg it = map fst (filter (\<lambda>(k, v). undeliverable e corrupt reg v) it)"

definition delivered :: "env \<Rightarrow> bool \<Rightarrow> string \<Rightarrow> store \<Rightarrow> FlowFileRecord list" where
  "delivered e corrupt c it =
     List.map_filter
       (\<lambda>(k, v). case DeSerialize e v of
                   Some r \<Rightarrow>
                     if \<not> corrupt \<and> connection_uuid r = c
                     then Some (r\<lparr>stored_to_repository := True\<rparr>) else None
                 | None \<Rightarrow> None) it"

definition released :: "env \<Rightarrow> bool \<Rightarrow> (string \<Rightarrow> bool) \<Rightarrow> store \<Rightarrow> content_call list" where
  "released e corrupt reg it =
     concat (map
       (\<lambda>(k, v). case DeSerialize e v of
                   Some r \<Rightarrow>
                     if corrupt \<or> \<not> reg (connection_uuid r) then claim_release r else []
                 | None \<Rightarrow> []) it)"

section \<open>The checkpoint at initialization\<close>

definition need_checkpoint :: "repo \<Rightarrow> bool" where
  "need_checkpoint s = (case db s of [] \<Rightarrow> False | first # rest \<Rightarrow> True)"

text \<open>
  Modelled from the spec: \<^verbatim>\<open>utils::file::FileUtils::delete_dir\<close> and
  \<^verbatim>\<open>rocksdb::Checkpoint\<close>. \<^verbatim>\<open>delete_dir\<close> answers the return code of the environment and
  removes the directory when the code is not negative; \<^verbatim>\<open>CreateCheckpoint\<close> writes a
  snapshot of the current store into the directory when it succeeds.
\<close>

definition delete_dir :: "env \<Rightarrow> repo \<Rightarrow> int \<times> repo" where
  "delete_dir e s =
     (delete_dir_rc e,
      s\<lparr>checkpoint_dir := (if delete_dir_rc e \<ge> 0 then None else checkpoint_dir s),
        fs_calls := fs_calls s @ [DeleteDirCall (delete_dir_rc e)]\<rparr>)"

definition Checkpoint_Create :: "env \<Rightarrow> repo \<Rightarrow> Status \<times> repo" where
  "Checkpoint_Create e s =
     (if checkpoint_create_ok e then Ok else IOError,
      s\<lparr>fs_calls := fs_calls s @ [CheckpointCreateCall (checkpoint_create_ok e)]\<rparr>)"

definition CreateCheckpoint :: "env \<Rightarrow> repo \<Rightarrow> Status \<times> repo" where
  "CreateCheckpoint e s =
     (if create_checkpoint_ok e then
        (Ok, s\<lparr>checkpoint_dir := Some (db s), fs_calls := fs_calls s @ [CreateCheckpointCall True]\<rparr>)
      else (IOError, s\<lparr>fs_calls := fs_calls s @ [CreateCheckpointCall False]\<rparr>))"

definition initialize_repository :: "env \<Rightarrow> repo \<Rightarrow> repo" where
  "initialize_repository e s =
     (if \<not> need_checkpoint s then s
      else
        (case delete_dir e s of
           (rc, s1) \<Rightarrow>
             if rc \<ge> 0 then
               (case Checkpoint_Create e s1 of
                  (st, s2) \<Rightarrow>
                    if ok st then
                      (case CreateCheckpoint e s2 of
                         (st', s3) \<Rightarrow> if ok st' then s3\<lparr>checkpoint := True\<rparr> else s3)
                    else s2)
             else s1))"

section \<open>Concrete runs\<close>

text \<open>
  A small repository on which the theorems below are instantiated. The store holds a
  record of the registered connection \<open>c\<close>, a record of a connection that is not
  registered, bytes that do not deserialize, and a key whose read reports an error.
  A third record names a claim but has an empty content path.
\<close>

definition rec1 :: FlowFileRecord where
  "rec1 = \<lparr>uuid_str = ''k1'', connection_uuid = ''c'', content_full_path = ''/p1'',
            resource_claim = Some ''/p1'', stored_to_repository = False\<rparr>"

definition rec3 :: FlowFileRecord where
  "rec3 = \<lparr>uuid_str = ''k3'', connection_uuid = ''x'', content_full_path = ''/p3'',
            resource_claim = Some ''/p3'', stored_to_repository = False\<rparr>"

definition rec5 :: FlowFileRecord where
  "rec5 = \<lparr>uuid_str = ''k5'', connection_uuid = ''x'', content_full_path = [],
            resource_claim = Some [], stored_to_repository = False\<rparr>"

definition deser :: "bytes \<Rightarrow> FlowFileRecord option" where
  "deser v =
     (if v = ''v1'' then Some rec1
      else if v = ''v3'' then Some rec3
      else if v = ''v5'' then Some rec5
      else None)"

definition env_ok :: env where
  "env_ok = \<lparr>DeSerialize = deser, read_error = (\<lambda>k. k = ''k9''), write_fails = (\<lambda>n. False),
              RETRY_INTERVAL_INCREMENTS = 500, delete_dir_rc = 0, checkpoint_create_ok = True,
              create_checkpoint_ok = True, open_readonly_ok = True\<rparr>"

definition env_write_fails :: env where
  "env_write_fails = env_ok\<lparr>write_fails := (\<lambda>n. True)\<rparr>"

definition repo0 :: repo where
  "repo0 = \<lparr>keys_to_delete = [''k1'', ''k4'', ''k9''],
             db = [(''k1'', ''v1''), (''k3'', ''v3''), (''k4'', ''junk''), (''k9'', ''v1'')],
             write_calls = 0, content_repo = Some [],
             connectionMap = [''c'' \<mapsto> []], checkpoint = True,
             checkpoint_dir = Some [(''k1'', ''v1''), (''k3'', ''v3''), (''k4'', ''junk'')],
             fs_calls = []\<rparr>"

definition env_open_fails :: env where
  "env_open_fails = env_ok\<lparr>open_readonly_ok := False\<rparr>"

definition repo_idle :: repo where
  "repo_idle = repo0\<lparr>keys_to_delete := []\<rparr>"

definition repo_k5 :: repo where
  "repo_k5 = repo_idle\<lparr>checkpoint_dir := Some [(''k5'', ''v5'')]\<rparr>"

text \<open>
  A key with a NUL byte, which the store does not hold, queued after the key that is its
  C string; the same key queued alone; and an unreadable key queued twice.
\<close>

definition key_nul :: key where
  "key_nul = [CHR ''a'', CHR 0x00, CHR ''b'']"

definition repo_nul :: repo where
  "repo_nul = repo_idle\<lparr>keys_to_delete := [''a'', key_nul], db := [(''a'', ''v1'')]\<rparr>"

definition repo_nul_only :: repo where
  "repo_nul_only = repo_idle\<lparr>keys_to_delete := [key_nul], db := [(''a'', ''v1'')]\<rparr>"

definition repo_dup :: repo where
  "repo_dup = repo0\<lparr>keys_to_delete := [''k9'', ''k9'', ''k1'', ''k4'']\<rparr>"

definition repo_empty :: repo where
  "repo_empty = repo_idle\<lparr>db := [], checkpoint := False, checkpoint_dir := None\<rparr>"

section \<open>The retry wrapper runs at most three times\<close>

lemma retry_loop_exit:
  "\<not> i < 3 \<Longrightarrow> retry_loop incr operation i w s tr = (False, s, tr)"
  by (simp add: retry_loop.simps)

text \<open>The three iterations of the loop, written out.\<close>

lemma ExecuteWithRetry_unfold:
  "ExecuteWithRetry incr operation s =
     (case operation s of (st1, s1) \<Rightarrow>
        if ok st1 then (True, s1, [Operation st1, LogTrace])
        else (case operation s1 of (st2, s2) \<Rightarrow>
          if ok st2 then
            (True, s2, [Operation st1, LogError, SleepFor incr, Operation st2, LogTrace])
          else (case operation s2 of (st3, s3) \<Rightarrow>
            if ok st3 then
              (True, s3, [Operation st1, LogError, SleepFor incr,
                          Operation st2, LogError, SleepFor (2 * incr),
                          Operation st3, LogTrace])
            else
              (False, s3, [Operation st1, LogError, SleepFor incr,
                           Operation st2, LogError, SleepFor (2 * incr),
                           Operation st3, LogError, SleepFor (3 * incr)]))))"
  unfolding ExecuteWithRetry_def
  apply (subst retry_loop.simps)
  apply (subst retry_loop.simps)
  apply (subst retry_loop.simps)
  apply (simp add: retry_loop_exit Let_def split: prod.splits)
  done

text \<open>
  C8. \<^verbatim>\<open>ExecuteWithRetry\<close> runs the operation at least once and at most three times, each
  run starting from the state the previous one left. Its events are, run after run, the
  call of the operation, the log line and, when the run failed, a sleep of one more
  increment than after the run before: every wait lies after a failed run and before
  the next call (the third failure is followed by a sleep of three increments before
  the wrapper returns false). Every run before the last one failed; the result is true
  exactly when the last run succeeded, so the first success ends the loop with no sleep
  and no further call, and the result is false only after three failed runs.
\<close>

theorem ExecuteWithRetry_at_most_three:
  "(case ExecuteWithRetry incr operation s of
      (r, s', tr) \<Rightarrow>
        1 \<le> attempts tr \<and> attempts tr \<le> 3 \<and>
        s' = state_after operation (attempts tr) s \<and>
        tr = concat (map (\<lambda>j. attempt_trace incr j (status_at operation j s))
                       [0..<attempts tr]) \<and>
        (\<forall>j. j + 1 < attempts tr \<longrightarrow> \<not> ok (status_at operation j s)) \<and>
        (r \<longleftrightarrow> ok (status_at operation (attempts tr - 1) s)) \<and>
        (\<not> r \<longrightarrow> attempts tr = 3) \<and>
        sleeps tr = map (\<lambda>n. int n * incr) [1..<(if r then attempts tr else attempts tr + 1)])"
  apply (simp add: ExecuteWithRetry_unfold attempts_def sleeps_def status_at_def
      attempt_trace_def split: prod.splits)
  apply (auto simp: upt_rec less_Suc_eq numeral_3_eq_3 numeral_2_eq_2)
  done

text \<open>
  An operation that fails twice and then succeeds, and one that always fails, with an
  increment of 500.
\<close>

theorem ExecuteWithRetry_at_most_three_witness:
  "ExecuteWithRetry 500 (\<lambda>c::nat. (if c < 2 then IOError else Ok, Suc c)) 0 =
     (True, 3, [Operation IOError, LogError, SleepFor 500,
                Operation IOError, LogError, SleepFor 1000, Operation Ok, LogTrace]) \<and>
   attempts [Operation IOError, LogError, SleepFor 500,
             Operation IOError, LogError, SleepFor 1000, Operation Ok, LogTrace] \<le> 3 \<and>
   ExecuteWithRetry 500 (\<lambda>c::nat. (IOError, Suc c)) 0 =
     (False, 3, [Operation IOError, LogError, SleepFor 500,
                 Operation IOError, LogError, SleepFor 1000,
                 Operation IOError, LogError, SleepFor 1500]) \<and>
   attempts [Operation IOError, LogError, SleepFor 500,
             Operation IOError, LogError, SleepFor 1000,
             Operation IOError, LogError, SleepFor 1500] = 3"
proof -
  have run1: "ExecuteWithRetry 500 (\<lambda>c::nat. (if c < 2 then IOError else Ok, Suc c)) 0 =
     (True, 3, [Operation IOError, LogError, SleepFor 500,
                Operation IOError, LogError, SleepFor 1000, Operation Ok, LogTrace])"
    by (simp add: ExecuteWithRetry_unfold)
  have run2: "ExecuteWithRetry 500 (\<lambda>c::nat. (IOError, Suc c)) 0 =
     (False, 3, [Operation IOError, LogError, SleepFor 500,
                 Operation IOError, LogError, SleepFor 1000,
                 Operation IOError, LogError, SleepFor 1500])"
    by (simp add: ExecuteWithRetry_unfold)
  have 1: "attempts [Operation IOError, LogError, SleepFor 500,
             Operation IOError, LogError, SleepFor 1000, Operation Ok, LogTrace] \<le> 3"
    using ExecuteWithRetry_at_most_three
      [where incr = 500 and operation = "\<lambda>c::nat. (if c < 2 then IOError else Ok, Suc c)"
         and s = 0]
    unfolding run1 prod.case by blast
  have 2: "attempts [Operation IOError, LogError, SleepFor 500,
             Operation IOError, LogError, SleepFor 1000,
             Operation IOError, LogError, SleepFor 1500] = 3"
    using ExecuteWithRetry_at_most_three
      [where incr = 500 and operation = "\<lambda>c::nat. (IOError, Suc c)" and s = 0]
    unfolding run2 prod.case by blast
  from run1 1 run2 2 show ?thesis by blast
qed

section \<open>What one call of flush does\<close>

lemma drain_eq: "drain queue keystrings = ([], keystrings @ queue)"
  by (induction queue arbitrary: keystrings) auto

lemma deref_nodes:
  "i < length q \<Longrightarrow>
   deref (map (\<lambda>k. if k \<in> E then None else Some k) q) i =
     (if q ! i \<in> E then Inl UseAfterFree else Inr (q ! i))"
  by (simp add: deref_def)

lemma erase_nodes:
  "erase str (map (\<lambda>k. if k \<in> E then None else Some k) q) =
     map (\<lambda>k. if k \<in> insert str E then None else Some k) q"
  by (simp add: erase_def)

lemma live_nodes:
  "live (map (\<lambda>k. if k \<in> E then None else Some k) q) = filter (\<lambda>k. k \<notin> E) q"
  by (induction q) (simp_all add: live_def)

text \<open>
  The loop from index \<open>i\<close>, when the strings of \<open>E\<close> were erased before: it reads a
  freed string, or it erases the C strings of the unreadable keys that are left.
\<close>

lemma flush_loop_run:
  "i \<le> length q \<Longrightarrow>
   flush_loop e q (map (\<lambda>k. snd (Get e d k)) q) (map (\<lambda>k. fst (Get e d k)) q) i
       (map (\<lambda>k. if k \<in> E then None else Some k) q, purgeList, batch) =
     (if no_dangling (unreadable e d) E (drop i q) then
        Inr (map (\<lambda>k. if k \<in> E \<union> c_str ` {j \<in> set (drop i q). unreadable e d j}
                       then None else Some k) q,
             purgeList @ List.map_filter
               (\<lambda>k. if ok (fst (Get e d k)) then DeSerialize e (snd (Get e d k)) else None)
               (drop i q),
             batch @ filter (\<lambda>k. ok (fst (Get e d k))) (drop i q))
      else Inl UseAfterFree)"
proof (induction "length q - i" arbitrary: i E purgeList batch)
  case 0
  then show ?case by (simp add: flush_loop.simps)
next
  case (Suc n)
  let ?vals = "map (\<lambda>k. snd (Get e d k)) q" and ?sts = "map (\<lambda>k. fst (Get e d k)) q"
  let ?nodes = "\<lambda>E. map (\<lambda>k. if k \<in> E then None else Some k) q"
  let ?f = "\<lambda>k. if ok (fst (Get e d k)) then DeSerialize e (snd (Get e d k)) else None"
  let ?g = "\<lambda>k. ok (fst (Get e d k))"
  let ?x = "q ! i"
  from Suc have lt: "i < length q" and le: "Suc i \<le> length q" and n: "n = length q - Suc i"
    by auto
  have dr: "drop i q = ?x # drop (Suc i) q"
    using lt by (simp add: Cons_nth_drop_Suc)
  note IH = Suc.hyps(1) [OF n le]
  show ?case
  proof (cases "?x \<in> E")
    case True
    have "flush_loop e q ?vals ?sts i (?nodes E, purgeList, batch) = Inl UseAfterFree"
      by (subst flush_loop.simps) (simp add: lt True deref_nodes split: option.splits)
    moreover have "\<not> no_dangling (unreadable e d) E (drop i q)"
      by (simp add: dr True)
    ultimately show ?thesis by simp
  next
    case alive: False
    show ?thesis
    proof (cases "unreadable e d ?x")
      case True
      then have bad: "\<not> ok (fst (Get e d ?x))"
        by (simp add: unreadable_def)
      have step: "flush_loop e q ?vals ?sts i (?nodes E, purgeList, batch) =
          flush_loop e q ?vals ?sts (Suc i) (?nodes (insert (c_str ?x) E), purgeList, batch)"
        by (subst flush_loop.simps) (simp add: lt bad alive deref_nodes erase_nodes)
      have nd: "no_dangling (unreadable e d) E (drop i q) =
          no_dangling (unreadable e d) (insert (c_str ?x) E) (drop (Suc i) q)"
        by (simp add: dr alive True)
      have sets: "insert (c_str ?x) E \<union> c_str ` {j \<in> set (drop (Suc i) q). unreadable e d j}
          = E \<union> c_str ` {j \<in> set (drop i q). unreadable e d j}"
        using True by (subst dr) auto
      have pl: "List.map_filter ?f (drop i q) = List.map_filter ?f (drop (Suc i) q)"
        using bad by (subst dr) simp
      have b: "filter ?g (drop i q) = filter ?g (drop (Suc i) q)"
        using bad by (subst dr) simp
      show ?thesis
        unfolding step IH nd sets pl b by (rule refl)
    next
      case False
      then have good: "ok (fst (Get e d ?x))"
        by (simp add: unreadable_def)
      let ?r = "case DeSerialize e (snd (Get e d ?x)) of Some r \<Rightarrow> [r] | None \<Rightarrow> []"
      have step: "flush_loop e q ?vals ?sts i (?nodes E, purgeList, batch) =
          flush_loop e q ?vals ?sts (Suc i) (?nodes E, purgeList @ ?r, batch @ [?x])"
        by (subst flush_loop.simps)
           (simp add: lt good alive deref_nodes split: option.splits)
      have nd: "no_dangling (unreadable e d) E (drop i q) =
          no_dangling (unreadable e d) E (drop (Suc i) q)"
        by (simp add: dr alive False)
      have sets: "E \<union> c_str ` {j \<in> set (drop (Suc i) q). unreadable e d j}
          = E \<union> c_str ` {j \<in> set (drop i q). unreadable e d j}"
        using False by (subst dr) auto
      have pl: "purgeList @ List.map_filter ?f (drop i q) =
          (purgeList @ ?r) @ List.map_filter ?f (drop (Suc i) q)"
        using good by (subst dr) (simp split: option.splits)
      have b: "batch @ filter ?g (drop i q) = (batch @ [?x]) @ filter ?g (drop (Suc i) q)"
        using good by (subst dr) simp
      show ?thesis
        unfolding step IH nd sets [symmetric] pl b by (rule refl)
    qed
  qed
qed

lemma flush_read_eq:
  "flush_read e s =
     (if flush_defined e s then
        Inr (filter (\<lambda>k. k \<notin> erased_strings e (db s) (keys_to_delete s)) (keys_to_delete s),
             List.map_filter
               (\<lambda>k. if ok (fst (Get e (db s) k)) then DeSerialize e (snd (Get e (db s) k))
                    else None)
               (keys_to_delete s),
             filter (\<lambda>k. ok (fst (Get e (db s) k))) (keys_to_delete s))
      else Inl UseAfterFree)"
proof -
  let ?q = "keys_to_delete s"
  have er: "c_str ` {j \<in> set ?q. unreadable e (db s) j} = erased_strings e (db s) ?q"
    by (auto simp: erased_strings_def)
  have run: "flush_loop e ?q (map (\<lambda>k. snd (Get e (db s) k)) ?q)
        (map (\<lambda>k. fst (Get e (db s) k)) ?q) 0 (map Some ?q, [], []) =
     (if flush_defined e s then
        Inr (map (\<lambda>k. if k \<in> erased_strings e (db s) ?q then None else Some k) ?q,
             List.map_filter
               (\<lambda>k. if ok (fst (Get e (db s) k)) then DeSerialize e (snd (Get e (db s) k))
                    else None) ?q,
             filter (\<lambda>k. ok (fst (Get e (db s) k))) ?q)
      else Inl UseAfterFree)"
    using flush_loop_run [where i = 0 and q = ?q and e = e and d = "db s" and E = "{}"
        and purgeList = "[]" and batch = "[]"]
    by (simp add: er flush_defined_def)
  show ?thesis
    by (simp add: flush_read_def drain_eq Let_def MultiGet_def run live_nodes)
qed

lemma flush_keystrings_eq:
  "flush_defined e s \<Longrightarrow>
   flush_keystrings e s =
     filter (\<lambda>k. k \<notin> erased_strings e (db s) (keys_to_delete s)) (keys_to_delete s)"
  by (simp add: flush_keystrings_def flush_read_eq)

lemma flush_batch_eq:
  "flush_defined e s \<Longrightarrow>
   flush_batch e s = filter (\<lambda>k. ok (fst (Get e (db s) k))) (keys_to_delete s)"
  by (simp add: flush_batch_def flush_read_eq)

lemma flush_purgeList_eq:
  "flush_defined e s \<Longrightarrow>
   flush_purgeList e s =
     List.map_filter
       (\<lambda>k. if ok (fst (Get e (db s) k)) then DeSerialize e (snd (Get e (db s) k)) else None)
       (keys_to_delete s)"
  by (simp add: flush_purgeList_def flush_read_eq)


lemma flush_undefined: "\<not> flush_defined e s \<Longrightarrow> flush e s = Inl UseAfterFree"
  by (simp add: flush_def flush_read_eq)

lemma ExecuteWithRetry_Write:
  "ExecuteWithRetry incr (Write e batch) s = (committed, s', tr) \<Longrightarrow>
   s' = s\<lparr>db := (if committed then filter (\<lambda>(k, v). k \<notin> set batch) (db s) else db s),
          write_calls := write_calls s + attempts tr\<rparr>"
  by (auto simp: ExecuteWithRetry_unfold Write_def attempts_def split: if_splits prod.splits)

lemma flush_write_state:
  "flush_write e s = (committed, s', tr) \<Longrightarrow>
   s' = s\<lparr>keys_to_delete := [],
          db := (if committed then filter (\<lambda>(k, v). k \<notin> set (flush_batch e s)) (db s) else db s),
          write_calls := write_calls s + attempts tr\<rparr>"
  unfolding flush_write_def
  by (drule ExecuteWithRetry_Write) (simp add: drain_eq)

lemma flush_failed:
  assumes "flush_defined e s" and "\<not> flush_committed e s"
  shows "flush e s =
     Inr (s\<lparr>keys_to_delete := flush_keystrings e s,
           write_calls := write_calls s + attempts (snd (snd (flush_write e s)))\<rparr>)"
proof -
  obtain c s' tr where w: "flush_write e s = (c, s', tr)" by (cases "flush_write e s")
  with assms have c: "\<not> c" by (simp add: flush_committed_def)
  from flush_write_state [OF w] c assms(1) show ?thesis
    by (simp add: flush_def w flush_read_eq flush_keystrings_def)
qed

lemma flush_succeeded:
  assumes "flush_defined e s" and "flush_committed e s"
  shows "flush e s =
     Inr (s\<lparr>keys_to_delete := [],
           db := filter (\<lambda>(k, v). k \<notin> set (flush_batch e s)) (db s),
           write_calls := write_calls s + attempts (snd (snd (flush_write e s))),
           content_repo :=
             map_option (\<lambda>calls. purge calls (flush_purgeList e s)) (content_repo s)\<rparr>)"
proof -
  obtain c s' tr where w: "flush_write e s = (c, s', tr)" by (cases "flush_write e s")
  with assms have c: "c" by (simp add: flush_committed_def)
  from flush_write_state [OF w] c assms(1) show ?thesis
    by (cases "content_repo s")
       (simp_all add: flush_def w flush_read_eq flush_purgeList_def)
qed


lemmas fixtures = rec1_def rec3_def rec5_def deser_def env_ok_def env_write_fails_def repo0_def


lemma ExecuteWithRetry_failed_attempts:
  "\<not> fst (ExecuteWithRetry incr operation s) \<Longrightarrow>
   attempts (snd (snd (ExecuteWithRetry incr operation s))) = 3"
  by (auto simp: ExecuteWithRetry_unfold attempts_def split: prod.splits if_splits)

lemma purge_eq:
  "purge calls purgeList =
     calls @ List.map_filter (\<lambda>r. map_option RemoveIfOrphaned (resource_claim r)) purgeList"
  by (induction purgeList arbitrary: calls) (auto split: option.splits)



lemma flush_write_attempts:
  "\<not> flush_committed e s \<Longrightarrow> attempts (snd (snd (flush_write e s))) = 3"
  unfolding flush_committed_def flush_write_def
  by (rule ExecuteWithRetry_failed_attempts)



text \<open>
  C9. With an empty queue \<^verbatim>\<open>flush\<close> returns, the write batch is empty (it is still
  written), the store and the content repository are as they were, and the queue is
  empty when \<^verbatim>\<open>flush\<close> returns.
\<close>

theorem flush_empty_queue:
  "keys_to_delete s = [] \<Longrightarrow>
     \<exists>s'. flush e s = Inr s' \<and> flush_batch e s = [] \<and> db s' = db s \<and>
          content_repo s' = content_repo s \<and> keys_to_delete s' = []"
proof -
  assume q: "keys_to_delete s = []"
  then have d: "flush_defined e s"
    by (simp add: flush_defined_def)
  show ?thesis
    using q
    by (cases "flush_committed e s"; cases "content_repo s")
       (simp_all add: flush_succeeded [OF d] flush_failed [OF d] flush_batch_eq [OF d]
          flush_keystrings_eq [OF d] flush_purgeList_eq [OF d] purge_eq)
qed

lemma Get_fixture:
  "Get env_ok (db repo0) ''k1'' = (Ok, ''v1'')"
  "Get env_ok (db repo0) ''k4'' = (Ok, ''junk'')"
  "Get env_ok (db repo0) ''k9'' = (IOError, [])"
  "Get env_write_fails (db repo0) ''k1'' = (Ok, ''v1'')"
  "Get env_write_fails (db repo0) ''k4'' = (Ok, ''junk'')"
  "Get env_write_fails (db repo0) ''k9'' = (IOError, [])"
  by (simp_all add: Get_def fixtures)

lemma keys_fixture: "keys_to_delete repo0 = [''k1'', ''k4'', ''k9'']"
  by (simp add: repo0_def)

lemma repo0_fields:
  "db repo0 = [(''k1'', ''v1''), (''k3'', ''v3''), (''k4'', ''junk''), (''k9'', ''v1'')]"
  "write_calls repo0 = 0"
  "content_repo repo0 = Some []"
  "checkpoint repo0"
  "checkpoint_dir repo0 = Some [(''k1'', ''v1''), (''k3'', ''v3''), (''k4'', ''junk'')]"
  "fs_calls repo0 = []"
  by (simp_all add: repo0_def)

lemma write_fails_fixture:
  "write_fails env_ok n = False"
  "write_fails env_write_fails n = True"
  by (simp_all add: env_ok_def env_write_fails_def)

lemma DeSerialize_fixture:
  "DeSerialize env_ok ''v1'' = Some rec1"
  "DeSerialize env_ok ''junk'' = None"
  "DeSerialize env_write_fails ''v1'' = Some rec1"
  "DeSerialize env_write_fails ''junk'' = None"
  by (simp_all add: env_ok_def env_write_fails_def deser_def)

lemma unreadable_fixture:
  "\<not> unreadable env_ok (db repo0) ''k1''"
  "\<not> unreadable env_ok (db repo0) ''k4''"
  "unreadable env_ok (db repo0) ''k9''"
  "\<not> unreadable env_write_fails (db repo0) ''k1''"
  "\<not> unreadable env_write_fails (db repo0) ''k4''"
  "unreadable env_write_fails (db repo0) ''k9''"
  by (simp_all add: unreadable_def Get_fixture)

lemma flush_defined_fixture:
  "flush_defined env_ok repo0"
  "flush_defined env_write_fails repo0"
  by (simp_all add: flush_defined_def keys_fixture unreadable_fixture)

lemma flush_read_fixture:
  "flush_read env_ok repo0 = Inr ([''k1'', ''k4''], [rec1], [''k1'', ''k4''])"
  "flush_read env_write_fails repo0 = Inr ([''k1'', ''k4''], [rec1], [''k1'', ''k4''])"
  by (simp_all add: flush_read_eq flush_defined_fixture erased_strings_def keys_fixture
      unreadable_fixture Get_fixture DeSerialize_fixture c_str_def)

lemma flush_write_fixture:
  "flush_write env_ok repo0 =
     (True, repo0\<lparr>keys_to_delete := [], db := [(''k3'', ''v3''), (''k9'', ''v1'')],
                  write_calls := 1\<rparr>, [Operation Ok, LogTrace])"
  "fst (flush_write env_write_fails repo0) = False"
  "fst (snd (flush_write env_write_fails repo0)) = repo0\<lparr>keys_to_delete := [], write_calls := 3\<rparr>"
  by (simp_all add: flush_write_def flush_batch_def flush_read_fixture ExecuteWithRetry_unfold
      Write_def drain_eq repo0_fields write_fails_fixture)


lemma flush_fixture_failing:
  "flush env_write_fails repo0 =
     Inr (repo0\<lparr>keys_to_delete := [''k1'', ''k4''], write_calls := 3\<rparr>)"
proof -
  obtain c s' tr where w: "flush_write env_write_fails repo0 = (c, s', tr)"
    by (cases "flush_write env_write_fails repo0")
  with flush_write_fixture(2,3) have "\<not> c" "s' = repo0\<lparr>keys_to_delete := [], write_calls := 3\<rparr>"
    by simp_all
  then show ?thesis
    by (simp add: flush_def w flush_read_fixture)
qed


text \<open>The concrete repository with its queue emptied.\<close>

theorem flush_empty_queue_witness:
  "keys_to_delete repo_idle = [] \<and>
   (\<exists>s'. flush env_ok repo_idle = Inr s' \<and> db s' = db repo0 \<and>
      content_repo s' = Some [] \<and> keys_to_delete s' = []) \<and>
   (\<exists>s'. flush env_write_fails repo_idle = Inr s' \<and> db s' = db repo0 \<and>
      keys_to_delete s' = [])"
proof -
  have q: "keys_to_delete repo_idle = []"
    by (simp add: repo_idle_def)
  have same: "db repo_idle = db repo0" "content_repo repo_idle = Some []"
    by (simp_all add: repo_idle_def repo0_fields)
  from flush_empty_queue [OF q, of env_ok] flush_empty_queue [OF q, of env_write_fails] q same
  show ?thesis by auto
qed

lemma no_dangling_nul_free:
  assumes "\<forall>k \<in> set q. c_str k = k" and "distinct (filter bad q)" and "E \<inter> set q = {}"
  shows "no_dangling bad E q"
  using assms
proof (induction q arbitrary: E)
  case Nil
  then show ?case by simp
next
  case (Cons k ks)
  let ?E = "if bad k then insert (c_str k) E else E"
  from Cons.prems have k: "k \<notin> E" and nul: "\<forall>k \<in> set ks. c_str k = k" and ck: "c_str k = k"
    by auto
  from Cons.prems have d: "distinct (filter bad ks)"
    by (simp split: if_splits)
  have "?E \<inter> set ks = {}"
    using Cons.prems ck by (auto split: if_splits)
  from Cons.IH [OF nul d this] k show ?case by simp
qed

lemma erased_strings_nul_free:
  assumes "\<forall>k \<in> set q. c_str k = k"
  shows "filter (\<lambda>k. k \<notin> erased_strings e d q) q = filter (\<lambda>k. ok (fst (Get e d k))) q"
proof (rule filter_cong [OF refl])
  fix k assume k: "k \<in> set q"
  have "erased_strings e d q = {j \<in> set q. unreadable e d j}"
    using assms by (auto simp: erased_strings_def image_iff)
  with k show "(k \<notin> erased_strings e d q) = ok (fst (Get e d k))"
    by (simp add: unreadable_def)
qed

text \<open>
  When the write fails on every retry, in a \<^verbatim>\<open>flush\<close> that reads no freed string: the
  queue holds the drained keys but the C strings of the unreadable ones; nothing else
  changes but the number of writes.
\<close>

lemma flush_failed_requeues_when_defined:
  assumes "flush_defined e s" and "\<not> flush_committed e s"
  shows "\<exists>s'. flush e s = Inr s' \<and>
     keys_to_delete s' =
       filter (\<lambda>k. k \<notin> erased_strings e (db s) (keys_to_delete s)) (keys_to_delete s) \<and>
     db s' = db s \<and> content_repo s' = content_repo s \<and>
     connectionMap s' = connectionMap s \<and> write_calls s' = write_calls s + 3"
  by (simp add: flush_failed [OF assms] flush_keystrings_eq [OF assms(1)]
      flush_write_attempts [OF assms(2)])

text \<open>
  With keys that hold no NUL byte and no unreadable key queued twice, a failed write puts
  back exactly the drained keys whose read succeeded.
\<close>

lemma flush_failed_requeues_nul_free:
  assumes "\<forall>k \<in> set (keys_to_delete s). c_str k = k"
    and "distinct (filter (unreadable e (db s)) (keys_to_delete s))"
    and "\<not> flush_committed e s"
  shows "\<exists>s'. flush e s = Inr s' \<and>
     keys_to_delete s' = filter (\<lambda>k. ok (fst (Get e (db s) k))) (keys_to_delete s) \<and>
     db s' = db s \<and> content_repo s' = content_repo s \<and>
     connectionMap s' = connectionMap s \<and> write_calls s' = write_calls s + 3"
proof -
  have d: "flush_defined e s"
    unfolding flush_defined_def using assms(1,2) by (rule no_dangling_nul_free) simp
  from flush_failed_requeues_when_defined [OF d assms(3)] erased_strings_nul_free [OF assms(1)]
  show ?thesis by simp
qed

text \<open>
  Under the same two conditions a drained key whose read failed is not in the batch,
  stays in the store and is not in the queue when \<^verbatim>\<open>flush\<close> returns.
\<close>

lemma flush_drops_unreadable_key_nul_free:
  assumes "\<forall>k \<in> set (keys_to_delete s). c_str k = k"
    and "distinct (filter (unreadable e (db s)) (keys_to_delete s))"
    and "k \<in> set (keys_to_delete s)" and "\<not> ok (fst (Get e (db s) k))"
  shows "\<exists>s'. flush e s = Inr s' \<and> k \<notin> set (flush_batch e s) \<and>
     (\<forall>v. (k, v) \<in> set (db s) \<longrightarrow> (k, v) \<in> set (db s')) \<and>
     k \<notin> set (keys_to_delete s')"
proof -
  have d: "flush_defined e s"
    unfolding flush_defined_def using assms(1,2) by (rule no_dangling_nul_free) simp
  have b: "k \<notin> set (flush_batch e s)"
    using assms(4) by (simp add: flush_batch_eq [OF d])
  have ks: "k \<notin> set (flush_keystrings e s)"
    using assms(4) by (simp add: flush_keystrings_eq [OF d] erased_strings_nul_free [OF assms(1)])
  show ?thesis
    using b ks
    by (cases "flush_committed e s") (auto simp: flush_succeeded [OF d] flush_failed [OF d])
qed

lemmas nul_fixtures = repo_nul_def repo_nul_only_def repo_dup_def repo_idle_def key_nul_def

lemma key_nul_facts:
  "c_str key_nul = ''a''" "key_nul \<noteq> ''a''" "''a'' \<noteq> key_nul" "c_str ''a'' = ''a''"
  by (simp_all add: c_str_def key_nul_def)

lemma Get_nul:
  "Get env_write_fails [(''a'', ''v1'')] ''a'' = (Ok, ''v1'')"
  "Get env_write_fails [(''a'', ''v1'')] key_nul = (NotFound, [])"
  by (simp_all add: Get_def env_write_fails_def env_ok_def key_nul_def)

lemma flush_read_nul:
  "flush_read env_write_fails repo_nul = Inr ([key_nul], [rec1], [''a''])"
  "flush_read env_write_fails repo_nul_only = Inr ([key_nul], [], [])"
  by (simp_all add: flush_read_eq flush_defined_def erased_strings_def unreadable_def
      repo_nul_def repo_nul_only_def Get_nul key_nul_facts DeSerialize_fixture)

lemma flush_read_dup:
  "flush_read env_write_fails repo_dup = Inl UseAfterFree"
  "flush_read env_ok repo_dup = Inl UseAfterFree"
  by (simp_all add: flush_read_eq flush_defined_def repo_dup_def unreadable_fixture c_str_def)


lemma nul_fields:
  "keys_to_delete repo_nul = [''a'', key_nul]"
  "db repo_nul = [(''a'', ''v1'')]"
  "write_calls repo_nul = 0"
  "keys_to_delete repo_nul_only = [key_nul]"
  "db repo_nul_only = [(''a'', ''v1'')]"
  "write_calls repo_nul_only = 0"
  "keys_to_delete repo_dup = [''k9'', ''k9'', ''k1'', ''k4'']"
  "db repo_dup = db repo0"
  by (simp_all add: repo_nul_def repo_nul_only_def repo_dup_def repo_idle_def repo0_fields)

lemma flush_write_nul:
  "fst (flush_write env_write_fails repo_nul) = False"
  "fst (snd (flush_write env_write_fails repo_nul)) =
     repo_nul\<lparr>keys_to_delete := [], write_calls := 3\<rparr>"
  "fst (flush_write env_write_fails repo_nul_only) = False"
  "fst (snd (flush_write env_write_fails repo_nul_only)) =
     repo_nul_only\<lparr>keys_to_delete := [], write_calls := 3\<rparr>"
  by (simp_all add: flush_write_def ExecuteWithRetry_unfold Write_def drain_eq nul_fields
      write_fails_fixture)

lemma flush_nul:
  "flush env_write_fails repo_nul = Inr (repo_nul\<lparr>keys_to_delete := [key_nul], write_calls := 3\<rparr>)"
proof -
  obtain c s' tr where w: "flush_write env_write_fails repo_nul = (c, s', tr)"
    by (cases "flush_write env_write_fails repo_nul")
  with flush_write_nul(1,2) have c: "\<not> c" and s': "s' = repo_nul\<lparr>keys_to_delete := [], write_calls := 3\<rparr>"
    by simp_all
  have "flush env_write_fails repo_nul = Inr (s'\<lparr>keys_to_delete := keys_to_delete s' @ [key_nul]\<rparr>)"
    unfolding flush_def flush_read_nul w using c by simp
  then show ?thesis
    by (simp add: s')
qed


lemma flush_nul_only:
  "flush env_write_fails repo_nul_only =
     Inr (repo_nul_only\<lparr>keys_to_delete := [key_nul], write_calls := 3\<rparr>)"
proof -
  obtain c s' tr where w: "flush_write env_write_fails repo_nul_only = (c, s', tr)"
    by (cases "flush_write env_write_fails repo_nul_only")
  with flush_write_nul(3,4)
  have c: "\<not> c" and s': "s' = repo_nul_only\<lparr>keys_to_delete := [], write_calls := 3\<rparr>"
    by simp_all
  have "flush env_write_fails repo_nul_only =
      Inr (s'\<lparr>keys_to_delete := keys_to_delete s' @ [key_nul]\<rparr>)"
    unfolding flush_def flush_read_nul w using c by simp
  then show ?thesis
    by (simp add: s')
qed

lemma flush_dup:
  "flush env_write_fails repo_dup = Inl UseAfterFree"
  "flush env_ok repo_dup = Inl UseAfterFree"
  unfolding flush_def flush_read_dup by simp_all

text \<open>
  C3 fails on the code. The queue holds the key \<open>a\<close>, which the store holds, and then
  the key \<open>a\<close>, NUL, \<open>b\<close>, which it does not hold. The read of the second key fails
  and \<^verbatim>\<open>keystrings.remove(keys[i].data())\<close> erases the C string \<open>a\<close>: when the write
  fails on every retry, the queue holds the unreadable key and not the readable one. And
  with an unreadable key queued twice, the second turn of the loop reads the string that
  the first turn erased and freed.
\<close>

theorem flush_requeue_loses_readable_key:
  "keys_to_delete repo_nul = [''a'', key_nul] \<and>
   ok (fst (Get env_write_fails (db repo_nul) ''a'')) \<and>
   \<not> ok (fst (Get env_write_fails (db repo_nul) key_nul)) \<and>
   \<not> flush_committed env_write_fails repo_nul \<and>
   flush env_write_fails repo_nul =
     Inr (repo_nul\<lparr>keys_to_delete := [key_nul], write_calls := 3\<rparr>) \<and>
   ''a'' \<notin> set [key_nul] \<and>
   keys_to_delete repo_dup = [''k9'', ''k9'', ''k1'', ''k4''] \<and>
   \<not> ok (fst (Get env_write_fails (db repo_dup) ''k9'')) \<and>
   flush env_write_fails repo_dup = Inl UseAfterFree"
  by (simp add: nul_fields Get_nul Get_fixture flush_committed_def flush_write_nul flush_nul
      key_nul_facts flush_dup)

text \<open>
  C5 fails on the code, by the same line. The key \<open>a\<close>, NUL, \<open>b\<close> is queued alone and
  its read fails; \<^verbatim>\<open>remove\<close> looks for the string \<open>a\<close> and erases nothing, so the
  unreadable key is back in the queue when the write fails on every retry. And with an
  unreadable key queued twice \<^verbatim>\<open>flush\<close> reads a freed string, so that the run is not
  the run without the key.
\<close>

theorem flush_requeues_unreadable_key:
  "keys_to_delete repo_nul_only = [key_nul] \<and>
   \<not> ok (fst (Get env_write_fails (db repo_nul_only) key_nul)) \<and>
   \<not> flush_committed env_write_fails repo_nul_only \<and>
   flush env_write_fails repo_nul_only =
     Inr (repo_nul_only\<lparr>keys_to_delete := [key_nul], write_calls := 3\<rparr>) \<and>
   keys_to_delete repo_dup = [''k9'', ''k9'', ''k1'', ''k4''] \<and>
   \<not> ok (fst (Get env_ok (db repo_dup) ''k9'')) \<and>
   flush env_ok repo_dup = Inl UseAfterFree"
  by (simp add: nul_fields Get_nul Get_fixture flush_committed_def flush_write_nul
      flush_nul_only flush_dup)

section \<open>What one recovery pass does\<close>

lemma scheduled_simps:
  "scheduled e c reg [] = []"
  "scheduled e c reg ((k, v) # it) =
     (if undeliverable e c reg v then [k] else []) @ scheduled e c reg it"
  by (simp_all add: scheduled_def)

lemma delivered_simps:
  "delivered e c x [] = []"
  "delivered e c x ((k, v) # it) =
     (case DeSerialize e v of
        Some r \<Rightarrow> if \<not> c \<and> connection_uuid r = x then [r\<lparr>stored_to_repository := True\<rparr>] else []
      | None \<Rightarrow> []) @ delivered e c x it"
  by (simp_all add: delivered_def split: option.splits)

lemma released_simps:
  "released e c reg [] = []"
  "released e c reg ((k, v) # it) =
     (case DeSerialize e v of
        Some r \<Rightarrow> if c \<or> \<not> reg (connection_uuid r) then claim_release r else []
      | None \<Rightarrow> []) @ released e c reg it"
  by (simp_all add: released_def)

lemma scheduled_append:
  "scheduled e c reg (xs @ ys) = scheduled e c reg xs @ scheduled e c reg ys"
  by (simp add: scheduled_def)

lemma map_filter_append:
  "List.map_filter f (xs @ ys) = List.map_filter f xs @ List.map_filter f ys"
  by (simp add: map_filter_def)

lemma released_append:
  "released e c reg (xs @ ys) = released e c reg xs @ released e c reg ys"
  by (simp add: released_def)

lemma delivered_append:
  "delivered e c x (xs @ ys) = delivered e c x xs @ delivered e c x ys"
  by (simp add: delivered_def map_filter_append)

lemma discard_Inr:
  "discard k r s = Inr s' \<Longrightarrow>
   s' = s\<lparr>content_repo := map_option (\<lambda>calls. calls @ claim_release r) (content_repo s),
          keys_to_delete := keys_to_delete s @ [k]\<rparr>"
  by (cases "content_repo s")
     (auto simp: discard_def claim_release_def split: option.splits if_splits)

lemma prune_record_keys:
  "prune_record e c k v s = Inr s' \<Longrightarrow>
   keys_to_delete s' = keys_to_delete s @ scheduled e c (registered s) [(k, v)]"
  by (auto simp: prune_record_def deliver_def scheduled_simps undeliverable_def
      registered_def dest!: discard_Inr split: option.splits if_splits)

lemma prune_record_content:
  "prune_record e c k v s = Inr s' \<Longrightarrow>
   content_repo s' =
     map_option (\<lambda>calls. calls @ released e c (registered s) [(k, v)]) (content_repo s)"
  by (auto simp: prune_record_def deliver_def released_simps registered_def
      option.map_ident dest!: discard_Inr split: option.splits if_splits)

lemma prune_record_connections:
  "prune_record e c k v s = Inr s' \<Longrightarrow>
   connectionMap s' x = map_option (\<lambda>q. q @ delivered e c x [(k, v)]) (connectionMap s x)"
  by (auto simp: prune_record_def deliver_def delivered_simps option.map_ident
      dest!: discard_Inr split: option.splits if_splits)


lemma prune_record_registered:
  "prune_record e c k v s = Inr s' \<Longrightarrow> registered s' = registered s"
  by (rule ext) (simp add: registered_def prune_record_connections)

lemma prune_loop_append:
  "prune_loop e c (xs @ ys) s =
     (case prune_loop e c xs s of Inl err \<Rightarrow> Inl err | Inr s1 \<Rightarrow> prune_loop e c ys s1)"
  by (induction xs arbitrary: s) (auto split: sum.splits)

lemma prune_loop_keys:
  "prune_loop e c it s = Inr s' \<Longrightarrow>
   keys_to_delete s' = keys_to_delete s @ scheduled e c (registered s) it"
proof (induction it arbitrary: s)
  case Nil
  then show ?case by (simp add: scheduled_simps)
next
  case (Cons kv it)
  obtain k v where kv: "kv = (k, v)" by (cases kv)
  from Cons.prems obtain s1 where s1: "prune_record e c k v s = Inr s1"
    and rest: "prune_loop e c it s1 = Inr s'"
    by (auto simp: kv split: sum.splits)
  from Cons.IH [OF rest] prune_record_keys [OF s1] prune_record_registered [OF s1]
  show ?case
    using scheduled_append [of e c "registered s" "[(k, v)]" it] by (simp add: kv)
qed

lemma prune_loop_content:
  "prune_loop e c it s = Inr s' \<Longrightarrow>
   content_repo s' = map_option (\<lambda>calls. calls @ released e c (registered s) it) (content_repo s)"
proof (induction it arbitrary: s)
  case Nil
  then show ?case by (simp add: released_simps option.map_ident)
next
  case (Cons kv it)
  obtain k v where kv: "kv = (k, v)" by (cases kv)
  from Cons.prems obtain s1 where s1: "prune_record e c k v s = Inr s1"
    and rest: "prune_loop e c it s1 = Inr s'"
    by (auto simp: kv split: sum.splits)
  have "released e c (registered s) ((k, v) # it) =
          released e c (registered s) [(k, v)] @ released e c (registered s) it"
    using released_append [of e c "registered s" "[(k, v)]" it] by simp
  with Cons.IH [OF rest] prune_record_content [OF s1] prune_record_registered [OF s1]
  show ?case
    by (simp add: kv option.map_comp comp_def)
qed

lemma prune_loop_connections:
  "prune_loop e c it s = Inr s' \<Longrightarrow>
   connectionMap s' x = map_option (\<lambda>q. q @ delivered e c x it) (connectionMap s x)"
proof (induction it arbitrary: s)
  case Nil
  then show ?case by (simp add: delivered_simps option.map_ident)
next
  case (Cons kv it)
  obtain k v where kv: "kv = (k, v)" by (cases kv)
  from Cons.prems obtain s1 where s1: "prune_record e c k v s = Inr s1"
    and rest: "prune_loop e c it s1 = Inr s'"
    by (auto simp: kv split: sum.splits)
  have "delivered e c x ((k, v) # it) = delivered e c x [(k, v)] @ delivered e c x it"
    using delivered_append [of e c x "[(k, v)]" it] by simp
  with Cons.IH [OF rest] prune_record_connections [OF s1]
  show ?case
    by (simp add: kv option.map_comp comp_def)
qed

lemma prune_loop_registered:
  "prune_loop e c it s = Inr s' \<Longrightarrow> registered s' = registered s"
  by (rule ext) (simp add: registered_def prune_loop_connections)


lemma prune_record_total:
  "content_repo s \<noteq> None \<Longrightarrow>
   \<exists>s'. prune_record e c k v s = Inr s' \<and> content_repo s' \<noteq> None"
  by (auto simp: prune_record_def discard_def deliver_def split: option.splits)

lemma prune_loop_total:
  "content_repo s \<noteq> None \<Longrightarrow> \<exists>s'. prune_loop e c it s = Inr s'"
proof (induction it arbitrary: s)
  case Nil
  then show ?case by simp
next
  case (Cons kv it)
  obtain k v where kv: "kv = (k, v)" by (cases kv)
  from prune_record_total [OF Cons.prems, of e c k v] obtain s1
    where "prune_record e c k v s = Inr s1" "content_repo s1 \<noteq> None" by blast
  with Cons.IH [of s1] show ?case by (simp add: kv)
qed

lemma prune_loop_split:
  assumes "prune_loop e c (pre @ (k, v) # post) s = Inr s'"
  shows "\<exists>s1 s2. prune_loop e c pre s = Inr s1 \<and> prune_record e c k v s1 = Inr s2 \<and>
           prune_loop e c post s2 = Inr s' \<and> registered s1 = registered s"
proof -
  from assms obtain s1 where s1: "prune_loop e c pre s = Inr s1"
    and rest: "prune_loop e c ((k, v) # post) s1 = Inr s'"
    by (auto simp: prune_loop_append split: sum.splits)
  from rest obtain s2 where "prune_record e c k v s1 = Inr s2" "prune_loop e c post s2 = Inr s'"
    by (auto split: sum.splits)
  with s1 prune_loop_registered [OF s1] show ?thesis by blast
qed

lemmas recovery_fixtures = fixtures repo_idle_def env_open_fails_def repo_k5_def

lemmas recovery_body = prune_stored_flowfiles_def stored_database_def OpenForReadOnly_def
  prune_record_def discard_def deliver_def

lemma prune_fixture_fallback:
  "prune_stored_flowfiles env_open_fails repo_idle =
     Inr (repo_idle
       \<lparr>connectionMap := [''c'' \<mapsto> [rec1\<lparr>stored_to_repository := True\<rparr>,
                                      rec1\<lparr>stored_to_repository := True\<rparr>]],
        content_repo := Some [Remove ''/p3''],
        keys_to_delete := [''k3'', ''k4'']\<rparr>)"
  by (simp add: recovery_body recovery_fixtures)


lemma prune_fixture_k5:
  "prune_stored_flowfiles env_ok repo_k5 = Inr (repo_k5\<lparr>keys_to_delete := [''k5'']\<rparr>)"
  by (simp add: recovery_body recovery_fixtures)

text \<open>
  C2. When the checkpoint cannot be opened the pass iterates the live store, and nothing
  flags it: \<^verbatim>\<open>corrupt_checkpoint\<close> is still false. On the concrete repository, with an
  open that fails, the record under \<open>k1\<close> deserializes, its connection \<open>c\<close> is
  registered, and the pass puts it into \<open>c\<close> with the stored flag set (as it does for
  \<open>k9\<close>, which holds the same bytes); its key is not enqueued and its claim \<open>/p1\<close> is
  not removed. Only \<open>k3\<close> (no connection) and \<open>k4\<close> (corrupt) are enqueued.
\<close>

theorem prune_fallback_still_delivers:
  "checkpoint repo_idle \<and>
   OpenForReadOnly env_open_fails (checkpoint_dir repo_idle) = None \<and>
   stored_database env_open_fails repo_idle = db repo_idle \<and>
   map_of (db repo_idle) ''k1'' = Some ''v1'' \<and>
   DeSerialize env_open_fails ''v1'' = Some rec1 \<and>
   connectionMap repo_idle (connection_uuid rec1) = Some [] \<and>
   prune_stored_flowfiles env_open_fails repo_idle =
     Inr (repo_idle
       \<lparr>connectionMap := [''c'' \<mapsto> [rec1\<lparr>stored_to_repository := True\<rparr>,
                                      rec1\<lparr>stored_to_repository := True\<rparr>]],
        content_repo := Some [Remove ''/p3''],
        keys_to_delete := [''k3'', ''k4'']\<rparr>)"
  by (simp add: prune_fixture_fallback)
     (simp add: stored_database_def OpenForReadOnly_def recovery_fixtures)

text \<open>
  C4, as stated, fails where the record names a claim and its content path is empty: the
  record under \<open>k5\<close> has no registered connection and a non-null claim, and the pass
  enqueues \<open>k5\<close> without any call to the content repository.
\<close>

theorem prune_keeps_claim_of_empty_path:
  "checkpoint repo_k5 \<and> stored_database env_ok repo_k5 = [(''k5'', ''v5'')] \<and>
   DeSerialize env_ok ''v5'' = Some rec5 \<and> resource_claim rec5 = Some [] \<and>
   connectionMap repo_k5 (connection_uuid rec5) = None \<and>
   content_repo repo_k5 = Some [] \<and>
   prune_stored_flowfiles env_ok repo_k5 = Inr (repo_k5\<lparr>keys_to_delete := [''k5'']\<rparr>)"
  by (simp add: prune_fixture_k5)
     (simp add: stored_database_def OpenForReadOnly_def recovery_fixtures)



lemma prune_record_null_content:
  "prune_record e c k v s = Inr s' \<Longrightarrow> content_repo s = None \<Longrightarrow>
   released e c (registered s) [(k, v)] = [] \<and> content_repo s' = None"
  by (auto simp: prune_record_def deliver_def discard_def released_simps registered_def
      claim_release_def split: option.splits if_splits)

lemma prune_loop_null_content:
  "prune_loop e c it s = Inr s' \<Longrightarrow> content_repo s = None \<Longrightarrow>
   released e c (registered s) it = []"
proof (induction it arbitrary: s)
  case Nil
  then show ?case by (simp add: released_simps)
next
  case (Cons kv it)
  obtain k v where kv: "kv = (k, v)" by (cases kv)
  from Cons.prems obtain s1 where s1: "prune_record e c k v s = Inr s1"
    and rest: "prune_loop e c it s1 = Inr s'"
    by (auto simp: kv split: sum.splits)
  from prune_record_null_content [OF s1 Cons.prems(2)]
  have 1: "released e c (registered s) [(k, v)] = []" and n: "content_repo s1 = None"
    by simp_all
  from Cons.IH [OF rest n] prune_record_registered [OF s1]
  have 2: "released e c (registered s) it = []" by simp
  from 1 2 released_append [of e c "registered s" "[(k, v)]" it] show ?case
    by (simp add: kv)
qed

lemma prune_record_resolved:
  assumes "prune_record e False k v s = Inr s'" and "DeSerialize e v = Some r"
    and "connectionMap s (connection_uuid r) = Some q"
  shows "s' = s\<lparr>connectionMap := (connectionMap s)
                 (connection_uuid r \<mapsto> q @ [r\<lparr>stored_to_repository := True\<rparr>])\<rparr>"
  using assms by (simp add: prune_record_def deliver_def)

lemma prune_record_unresolved:
  assumes "prune_record e False k v s = Inr s'" and "DeSerialize e v = Some r"
    and "connectionMap s (connection_uuid r) = None"
  shows "s' = s\<lparr>content_repo := map_option (\<lambda>calls. calls @ claim_release r) (content_repo s),
                 keys_to_delete := keys_to_delete s @ [k]\<rparr>"
  using assms by (simp add: prune_record_def discard_Inr)


lemma prune_stored_flowfiles_loop:
  "checkpoint s \<Longrightarrow> prune_stored_flowfiles e s = prune_loop e False (stored_database e s) s"
  by (simp add: prune_stored_flowfiles_def)

lemma prune_stored_flowfiles_returns:
  "content_repo s \<noteq> None \<Longrightarrow> \<exists>s'. prune_stored_flowfiles e s = Inr s'"
  by (simp add: prune_stored_flowfiles_def prune_loop_total)

lemma prune_deserialized_record_step:
  assumes "checkpoint s" and "stored_database e s = pre @ (k, v) # post"
    and "prune_stored_flowfiles e s = Inr s'" and "DeSerialize e v = Some r"
  shows "\<exists>s1 s2.
      prune_loop e False pre s = Inr s1 \<and> prune_record e False k v s1 = Inr s2 \<and>
      prune_loop e False post s2 = Inr s' \<and>
      (case connectionMap s (connection_uuid r) of
         Some q0 \<Rightarrow>
           (\<exists>q. connectionMap s1 (connection_uuid r) = Some q \<and>
                s2 = s1\<lparr>connectionMap := (connectionMap s1)
                       (connection_uuid r \<mapsto> q @ [r\<lparr>stored_to_repository := True\<rparr>])\<rparr>) \<and>
           (\<exists>q'. connectionMap s' (connection_uuid r) = Some q' \<and>
                 r\<lparr>stored_to_repository := True\<rparr> \<in> set q')
       | None \<Rightarrow>
           s2 = s1\<lparr>content_repo :=
                     map_option (\<lambda>calls. calls @ claim_release r) (content_repo s1),
                   keys_to_delete := keys_to_delete s1 @ [k]\<rparr> \<and>
           connectionMap s' (connection_uuid r) = None \<and>
           k \<in> set (keys_to_delete s') \<and>
           (\<forall>cl \<in> set (claim_release r).
               \<exists>calls. content_repo s' = Some calls \<and> cl \<in> set calls))"
proof -
  let ?it = "pre @ (k, v) # post"
  from assms have pass: "prune_loop e False ?it s = Inr s'"
    by (simp add: prune_stored_flowfiles_loop)
  from prune_loop_split [OF pass] obtain s1 s2 where
    s1: "prune_loop e False pre s = Inr s1" and s2: "prune_record e False k v s1 = Inr s2"
    and post: "prune_loop e False post s2 = Inr s'" and reg: "registered s1 = registered s"
    by blast
  have conn: "connectionMap s' x =
      map_option (\<lambda>q. q @ delivered e False x ?it) (connectionMap s x)" for x
    using pass by (rule prune_loop_connections)
  have keys: "keys_to_delete s' = keys_to_delete s @ scheduled e False (registered s) ?it"
    using pass by (rule prune_loop_keys)
  have content: "content_repo s' =
      map_option (\<lambda>calls. calls @ released e False (registered s) ?it) (content_repo s)"
    using pass by (rule prune_loop_content)
  show ?thesis
  proof (cases "connectionMap s (connection_uuid r)")
    case (Some q0)
    then have "registered s1 (connection_uuid r)"
      by (simp add: reg registered_def)
    then obtain q where q: "connectionMap s1 (connection_uuid r) = Some q"
      by (auto simp: registered_def)
    have "r\<lparr>stored_to_repository := True\<rparr> \<in> set (delivered e False (connection_uuid r) ?it)"
      using assms(4) by (simp add: delivered_append delivered_simps)
    then have "\<exists>q'. connectionMap s' (connection_uuid r) = Some q' \<and>
                 r\<lparr>stored_to_repository := True\<rparr> \<in> set q'"
      by (simp add: conn Some)
    with s1 s2 post q prune_record_resolved [OF s2 assms(4) q] Some show ?thesis
      by auto
  next
    case None
    have "\<not> registered s1 (connection_uuid r)"
      using None by (simp add: reg registered_def)
    then have n1: "connectionMap s1 (connection_uuid r) = None"
      by (simp add: registered_def)
    have und: "undeliverable e False (registered s) v"
      using assms(4) None by (simp add: undeliverable_def registered_def)
    have k: "k \<in> set (keys_to_delete s')"
      using und by (simp add: keys scheduled_append scheduled_simps)
    have rel: "set (claim_release r) \<subseteq> set (released e False (registered s) ?it)"
      using assms(4) None by (auto simp: released_append released_simps registered_def)
    have "\<exists>calls. content_repo s' = Some calls \<and> cl \<in> set calls"
      if cl: "cl \<in> set (claim_release r)" for cl
    proof (cases "content_repo s")
      case None
      from prune_loop_null_content [OF pass None] rel cl show ?thesis by auto
    next
      case (Some calls)
      with rel cl show ?thesis by (auto simp: content)
    qed
    with s1 s2 post prune_record_unresolved [OF s2 assms(4) n1] None k conn show ?thesis
      by auto
  qed
qed


lemma idle_fields:
  "checkpoint repo_idle"
  "keys_to_delete repo_idle = []"
  "content_repo repo_idle = Some []"
  "db repo_idle = db repo0"
  "stored_database env_ok repo_idle = [(''k1'', ''v1''), (''k3'', ''v3''), (''k4'', ''junk'')]"
  "connectionMap repo_idle ''c'' = Some []"
  "connectionMap repo_idle ''x'' = None"
  by (simp_all add: stored_database_def OpenForReadOnly_def recovery_fixtures)

lemma rec_fields:
  "DeSerialize env_ok ''v3'' = Some rec3"
  "connection_uuid rec1 = ''c''"
  "connection_uuid rec3 = ''x''"
  "claim_release rec3 = [Remove ''/p3'']"
  by (simp_all add: claim_release_def fixtures)

text \<open>
  C4, amended. Take a pass over the opened database and a pair of it whose bytes
  deserialize to \<open>r\<close>; \<open>s1\<close> is the state when the loop reaches the pair and \<open>s2\<close>
  the state after its iteration. If the connection of \<open>r\<close> is registered, the iteration
  changes nothing but that connection, into which it puts \<open>r\<close> with the stored flag
  set (so no key is enqueued and no claim removed), and \<open>r\<close> is in that connection at
  the end of the pass. If the connection is not registered, the iteration changes nothing
  but the content repository and the queue of keys (so \<open>r\<close> is delivered nowhere): it
  removes the claim of \<open>r\<close> when \<open>r\<close> has one and its content path is not empty, and
  it enqueues the key; at the end of the pass the key is in the queue and the removal is
  among the calls the content repository received. With a content repository that is
  not null the pass always returns.
\<close>

theorem prune_deserialized_record:
  assumes "checkpoint s" and "stored_database e s = pre @ (k, v) # post"
    and "DeSerialize e v = Some r"
  shows "(content_repo s \<noteq> None \<longrightarrow> (\<exists>s'. prune_stored_flowfiles e s = Inr s')) \<and>
    (\<forall>s'. prune_stored_flowfiles e s = Inr s' \<longrightarrow>
      (\<exists>s1 s2.
      prune_loop e False pre s = Inr s1 \<and> prune_record e False k v s1 = Inr s2 \<and>
      prune_loop e False post s2 = Inr s' \<and>
      (case connectionMap s (connection_uuid r) of
         Some q0 \<Rightarrow>
           (\<exists>q. connectionMap s1 (connection_uuid r) = Some q \<and>
                s2 = s1\<lparr>connectionMap := (connectionMap s1)
                       (connection_uuid r \<mapsto> q @ [r\<lparr>stored_to_repository := True\<rparr>])\<rparr>) \<and>
           (\<exists>q'. connectionMap s' (connection_uuid r) = Some q' \<and>
                 r\<lparr>stored_to_repository := True\<rparr> \<in> set q')
       | None \<Rightarrow>
           s2 = s1\<lparr>content_repo :=
                     map_option (\<lambda>calls. calls @ claim_release r) (content_repo s1),
                   keys_to_delete := keys_to_delete s1 @ [k]\<rparr> \<and>
           connectionMap s' (connection_uuid r) = None \<and>
           k \<in> set (keys_to_delete s') \<and>
           (\<forall>cl \<in> set (claim_release r).
               \<exists>calls. content_repo s' = Some calls \<and> cl \<in> set calls))))"
  using assms prune_stored_flowfiles_returns [of s e]
    prune_deserialized_record_step [OF assms(1,2) _ assms(3)]
  by blast

text \<open>The pairs under \<open>k1\<close> (connection registered) and \<open>k3\<close> (not registered).\<close>

theorem prune_deserialized_record_witness:
  "checkpoint repo_idle \<and>
   stored_database env_ok repo_idle = [(''k1'', ''v1''), (''k3'', ''v3''), (''k4'', ''junk'')] \<and>
   DeSerialize env_ok ''v1'' = Some rec1 \<and> connectionMap repo_idle (connection_uuid rec1) = Some [] \<and>
   DeSerialize env_ok ''v3'' = Some rec3 \<and> connectionMap repo_idle (connection_uuid rec3) = None \<and>
   (\<exists>s'. prune_stored_flowfiles env_ok repo_idle = Inr s' \<and>
      (\<exists>q'. connectionMap s' ''c'' = Some q' \<and> rec1\<lparr>stored_to_repository := True\<rparr> \<in> set q') \<and>
      connectionMap s' ''x'' = None \<and> ''k3'' \<in> set (keys_to_delete s') \<and>
      (\<exists>calls. content_repo s' = Some calls \<and> Remove ''/p3'' \<in> set calls))"
proof -
  have db1: "stored_database env_ok repo_idle =
      [] @ (''k1'', ''v1'') # [(''k3'', ''v3''), (''k4'', ''junk'')]"
    and db3: "stored_database env_ok repo_idle =
      [(''k1'', ''v1'')] @ (''k3'', ''v3'') # [(''k4'', ''junk'')]"
    by (simp_all add: idle_fields)
  from prune_deserialized_record
    [OF idle_fields(1) db1 DeSerialize_fixture(1), THEN conjunct1] idle_fields(3)
  obtain s' where p: "prune_stored_flowfiles env_ok repo_idle = Inr s'"
    by auto
  have r1: "connectionMap repo_idle (connection_uuid rec1) = Some []"
    and r3: "connectionMap repo_idle (connection_uuid rec3) = None"
    by (simp_all add: idle_fields rec_fields)
  from prune_deserialized_record
    [OF idle_fields(1) db1 DeSerialize_fixture(1), THEN conjunct2, rule_format, OF p] r1
  have A: "\<exists>q'. connectionMap s' ''c'' = Some q' \<and> rec1\<lparr>stored_to_repository := True\<rparr> \<in> set q'"
    by (auto simp: rec_fields)
  from prune_deserialized_record
    [OF idle_fields(1) db3 rec_fields(1), THEN conjunct2, rule_format, OF p] r3
  have B: "connectionMap s' ''x'' = None \<and> ''k3'' \<in> set (keys_to_delete s') \<and>
      (\<exists>calls. content_repo s' = Some calls \<and> Remove ''/p3'' \<in> set calls)"
    by (auto simp: rec_fields)
  from p A B r1 r3 idle_fields(1,5) DeSerialize_fixture(1) rec_fields(1) show ?thesis
    by blast
qed














section \<open>What the initialization does\<close>

lemma need_checkpoint_iff: "need_checkpoint s \<longleftrightarrow> db s \<noteq> []"
  by (cases "db s") (simp_all add: need_checkpoint_def)

lemmas init_body = initialize_repository_def need_checkpoint_iff delete_dir_def
  Checkpoint_Create_def CreateCheckpoint_def

text \<open>
  C7. \<^verbatim>\<open>need_checkpoint\<close> is true exactly when the store holds a record, and
  \<^verbatim>\<open>initialize_repository\<close> touches the checkpoint directory exactly then; on an empty
  store it changes nothing. On a store with a record it first calls \<^verbatim>\<open>delete_dir\<close>;
  only when that call succeeded does it create the checkpoint object and then the
  snapshot, so a snapshot is never written over a previous directory; a snapshot that
  is written is the current store, and only then is \<^verbatim>\<open>checkpoint_\<close> set. The store itself
  is not changed. With a null \<^verbatim>\<open>checkpoint_\<close> the recovery pass returns at once, in the
  state it started from.
\<close>

theorem checkpoint_only_for_nonempty_store:
  "(need_checkpoint s \<longleftrightarrow> db s \<noteq> []) \<and>
   (fs_calls (initialize_repository e s) \<noteq> fs_calls s \<longleftrightarrow> db s \<noteq> []) \<and>
   (db s = [] \<longrightarrow> initialize_repository e s = s) \<and>
   fs_calls (initialize_repository e s) = fs_calls s @
     (if db s = [] then []
      else if delete_dir_rc e < 0 then [DeleteDirCall (delete_dir_rc e)]
      else if \<not> checkpoint_create_ok e then
        [DeleteDirCall (delete_dir_rc e), CheckpointCreateCall False]
      else [DeleteDirCall (delete_dir_rc e), CheckpointCreateCall True,
            CreateCheckpointCall (create_checkpoint_ok e)]) \<and>
   checkpoint_dir (initialize_repository e s) =
     (if db s = [] \<or> delete_dir_rc e < 0 then checkpoint_dir s
      else if checkpoint_create_ok e \<and> create_checkpoint_ok e then Some (db s)
      else None) \<and>
   (checkpoint (initialize_repository e s) \<longleftrightarrow>
      checkpoint s \<or>
      db s \<noteq> [] \<and> 0 \<le> delete_dir_rc e \<and> checkpoint_create_ok e \<and> create_checkpoint_ok e) \<and>
   db (initialize_repository e s) = db s \<and>
   (\<not> checkpoint s \<longrightarrow> prune_stored_flowfiles e s = Inr s)"
  by (simp add: init_body prune_stored_flowfiles_def)

text \<open>
  The concrete store with four records and a stale checkpoint directory gets a fresh
  snapshot; the empty repository is left alone by the initialization and by the pass.
\<close>

theorem checkpoint_only_for_nonempty_store_witness:
  "db repo0 \<noteq> [] \<and> checkpoint_dir repo0 \<noteq> Some (db repo0) \<and>
   fs_calls (initialize_repository env_ok repo0) =
     [DeleteDirCall 0, CheckpointCreateCall True, CreateCheckpointCall True] \<and>
   checkpoint_dir (initialize_repository env_ok repo0) = Some (db repo0) \<and>
   checkpoint (initialize_repository env_ok repo0) \<and>
   db repo_empty = [] \<and> \<not> checkpoint repo_empty \<and>
   initialize_repository env_ok repo_empty = repo_empty \<and>
   prune_stored_flowfiles env_ok repo_empty = Inr repo_empty"
proof -
  have n: "db repo0 \<noteq> []" and o: "checkpoint_dir repo0 \<noteq> Some (db repo0)"
    by (simp_all add: repo0_fields)
  have e: "delete_dir_rc env_ok = 0" "checkpoint_create_ok env_ok" "create_checkpoint_ok env_ok"
    by (simp_all add: env_ok_def)
  have m: "db repo_empty = []" "\<not> checkpoint repo_empty"
    by (simp_all add: repo_empty_def)
  from checkpoint_only_for_nonempty_store [of repo0 env_ok] n e
  have 1: "fs_calls (initialize_repository env_ok repo0) =
     [DeleteDirCall 0, CheckpointCreateCall True, CreateCheckpointCall True]"
    and 2: "checkpoint_dir (initialize_repository env_ok repo0) = Some (db repo0)"
    and 3: "checkpoint (initialize_repository env_ok repo0)"
    by (simp_all add: repo0_fields)
  from checkpoint_only_for_nonempty_store [of repo_empty env_ok] m
  have 4: "initialize_repository env_ok repo_empty = repo_empty"
    and 5: "prune_stored_flowfiles env_ok repo_empty = Inr repo_empty"
    by blast+
  from n o 1 2 3 m 4 5 show ?thesis by blast
qed

end
